theory Spec2Isabelle
  imports Main
begin

section \<open>The video controller content script (App.vue)\<close>

text \<open>
  The script of \<^verbatim>\<open>src/contentScripts/views/App.vue\<close> is embedded function by
  function. Values of the host page (DOM nodes, windows, key events) are data; every effect
  of the script (timers set, plugin handlers called, flags set on an event, children
  inserted or removed) is an explicit component of a returned state; every exception is a
  value of \<open>error\<close>.
\<close>

subsection \<open>Strings\<close>

text \<open>
  Strings are lists of 8-bit characters (UTF-8 bytes). \<^verbatim>\<open>toLowerCase\<close> is
  modelled on the ASCII letters and leaves every other byte alone. That is exact for the two
  uses in the script: membership of the result in \<^verbatim>\<open>['input', 'textarea']\<close>, and
  the case-insensitive pattern \<^verbatim>\<open>/video/i\<close> (without the \<^verbatim>\<open>u\<close> flag a
  character outside ASCII is never identified with an ASCII letter).
\<close>

definition toLowerCase_char :: "char \<Rightarrow> char" where
  "toLowerCase_char c =
     (case map_of (zip ''ABCDEFGHIJKLMNOPQRSTUVWXYZ'' ''abcdefghijklmnopqrstuvwxyz'') c of
        Some l \<Rightarrow> l
      | None \<Rightarrow> c)"

definition toLowerCase :: "string \<Rightarrow> string" where
  "toLowerCase s = map toLowerCase_char s"

text \<open>
  \<^verbatim>\<open>/video/i.test(s)\<close>: some five consecutive characters of \<open>s\<close> spell
  \<^verbatim>\<open>video\<close> up to case.
\<close>

fun regex_video_i_test :: "string \<Rightarrow> bool" where
  "regex_video_i_test [] = False"
| "regex_video_i_test (c # cs) =
     (toLowerCase (take 5 (c # cs)) = ''video'' \<or> regex_video_i_test cs)"

subsection \<open>DOM nodes\<close>

text \<open>
  A node is an element, with the properties the script reads (\<^verbatim>\<open>nodeName\<close>,
  \<^verbatim>\<open>className\<close>, \<^verbatim>\<open>src\<close>, its child nodes), or a node of another type (text,
  comment, ...), for which \<^verbatim>\<open>nodeType !== Node.ELEMENT_NODE\<close>. Elements are the
  elements of an HTML document: \<^verbatim>\<open>nodeName\<close> is the tag name in upper case, and the type
  selectors \<^verbatim>\<open>video\<close> and \<^verbatim>\<open>iframe\<close> select the elements named \<^verbatim>\<open>VIDEO\<close>
  and \<^verbatim>\<open>IFRAME\<close>.
\<close>

datatype node =
    Element (nodeName: string) (className: string) (src: string) (childNodes: "node list")
  | NonElement

text \<open>The elements of a subtree with a given name, the root included, in tree order.\<close>

fun elements_named :: "string \<Rightarrow> node \<Rightarrow> node list" where
  "elements_named t NonElement = []"
| "elements_named t (Element n c s ch) =
     (if n = t then [Element n c s ch] else []) @ concat (map (elements_named t) ch)"

text \<open>
  \<^verbatim>\<open>element.querySelector(sel)\<close>: the first descendant of the element that matches,
  the element itself excluded; \<open>None\<close> is \<^verbatim>\<open>null\<close>.
\<close>

fun querySelector :: "string \<Rightarrow> node \<Rightarrow> node option" where
  "querySelector t NonElement = None"
| "querySelector t (Element n c s ch) =
     (case concat (map (elements_named t) ch) of [] \<Rightarrow> None | x # _ \<Rightarrow> Some x)"

text \<open>
  \<^verbatim>\<open>document.querySelectorAll(sel)\<close>: every matching element of the document, in tree
  order. A document is given by the list of its child nodes.
\<close>

definition querySelectorAll :: "string \<Rightarrow> node list \<Rightarrow> node list" where
  "querySelectorAll t doc = concat (map (elements_named t) doc)"

subsection \<open>The plausibility test of the mutation watcher\<close>

fun mayContainsVideoElement :: "node \<Rightarrow> bool" where
  "mayContainsVideoElement NonElement = False"
| "mayContainsVideoElement (Element n c s ch) =
     (if n = ''VIDEO'' then True
      else if regex_video_i_test c then True
      else if querySelector ''IFRAME'' (Element n c s ch) \<noteq> None then True
      else False)"

subsection \<open>Windows and video discovery\<close>

datatype error = SecurityError | TypeError

text \<open>
  A window is same-origin with the script or not, has a document, and has child windows
  (\<^verbatim>\<open>frame.frames\<close>, in the order of that array). What the script
  can do with a window of another origin is fixed by the cross-origin rules of the HTML
  standard: of a cross-origin \<^verbatim>\<open>WindowProxy\<close> only the properties \<^verbatim>\<open>frames\<close>,
  \<^verbatim>\<open>length\<close>, the indices and a few others can be read; reading any other property,
  \<^verbatim>\<open>document\<close> and \<^verbatim>\<open>Symbol.iterator\<close> among them, raises a
  \<^verbatim>\<open>SecurityError\<close>.
\<close>

datatype origin = SameOrigin | CrossOrigin

datatype window = Window (origin: origin) (document: "node list") (frames: "window list")

text \<open>\<^verbatim>\<open>frame.document\<close>.\<close>

definition get_document :: "window \<Rightarrow> error + node list" where
  "get_document frame =
     (case origin frame of SameOrigin \<Rightarrow> Inr (document frame) | CrossOrigin \<Rightarrow> Inl SecurityError)"

text \<open>\<^verbatim>\<open>frame.frames.length\<close>, readable whatever the origin.\<close>

definition frames_length :: "window \<Rightarrow> nat" where
  "frames_length frame = length (frames frame)"

text \<open>
  \<^verbatim>\<open>Array.from(frame.frames)\<close>. \<^verbatim>\<open>Array.from\<close> first reads the
  \<^verbatim>\<open>Symbol.iterator\<close> property of its argument, and \<^verbatim>\<open>frame.frames\<close> is the
  \<^verbatim>\<open>WindowProxy\<close> of \<^verbatim>\<open>frame\<close> itself: for a cross-origin window that read
  raises.
\<close>

definition Array_from_frames :: "window \<Rightarrow> error + window list" where
  "Array_from_frames frame =
     (case origin frame of SameOrigin \<Rightarrow> Inr (frames frame) | CrossOrigin \<Rightarrow> Inl SecurityError)"

text \<open>
  \<^verbatim>\<open>getAllValidVideoElements\<close>. The \<^verbatim>\<open>try\<close> block holds the read of
  \<^verbatim>\<open>frame.document\<close> and the query only; its \<^verbatim>\<open>catch\<close> logs and goes on with
  no element pushed (a document that can be read is an object, so the test
  \<^verbatim>\<open>if (frame.document)\<close> passes). The enumeration of the child windows stands after the block, so an
  exception there, or in a recursive call, leaves the function: the \<open>Inl\<close> results.
  \<open>forEach_frames\<close> is the \<^verbatim>\<open>forEach\<close> over the child windows, with the array
  \<^verbatim>\<open>elements\<close> as accumulator.
\<close>

fun getAllValidVideoElements :: "window \<Rightarrow> error + node list"
  and forEach_frames :: "window list \<Rightarrow> node list \<Rightarrow> error + node list" where
  "getAllValidVideoElements (Window og doc fs) =
     (let elements =
        (case get_document (Window og doc fs) of
           Inl e \<Rightarrow> []
         | Inr d \<Rightarrow> filter (\<lambda>video. src video \<noteq> []) (querySelectorAll ''VIDEO'' d))
      in if frames_length (Window og doc fs) \<noteq> 0
         then (case Array_from_frames (Window og doc fs) of
                 Inl e \<Rightarrow> Inl e
               | Inr _ \<Rightarrow> forEach_frames fs elements \<comment> \<open>the array holds \<open>fs\<close>\<close>)
         else Inr elements)"
| "forEach_frames [] elements = Inr elements"
| "forEach_frames (f # fs) elements =
     (case getAllValidVideoElements f of
        Inl e \<Rightarrow> Inl e
      | Inr vs \<Rightarrow> forEach_frames fs (elements @ vs))"

text \<open>
  The discovery of the specification, written from its words: the videos of the document
  with a non-empty source, then the result of every child frame, in order; a frame whose
  access is denied gives no video of its own.
\<close>

fun discover :: "window \<Rightarrow> node list" where
  "discover (Window og doc fs) =
     (case og of
        SameOrigin \<Rightarrow> filter (\<lambda>video. src video \<noteq> []) (querySelectorAll ''VIDEO'' doc)
      | CrossOrigin \<Rightarrow> [])
     @ concat (map discover fs)"

text \<open>
  The windows on which no enumeration of child windows raises: every cross-origin window
  of the tree is a leaf.
\<close>

fun enumerable :: "window \<Rightarrow> bool" where
  "enumerable (Window og doc fs) =
     ((og = SameOrigin \<or> fs = []) \<and> list_all enumerable fs)"

subsection \<open>The mutation watcher\<close>

text \<open>
  A mutation record carries the nodes added and the nodes removed. What the watcher does is
  to ask for runs of the callback \<^verbatim>\<open>onVideoUpdate\<close>: \<open>SetTimeout ms\<close> is
  \<^verbatim>\<open>setTimeout(onVideoUpdate, ms)\<close> (\<^verbatim>\<open>setTimeout(onVideoUpdate)\<close> is the
  delay 0), \<open>Call\<close> is a direct call. The requests are logged in the order they are made.
\<close>

record mutation =
  addedNodes :: "node list"
  removedNodes :: "node list"

datatype trigger = SetTimeout nat | Call

definition forEach_addedNodes :: "node list \<Rightarrow> trigger list \<Rightarrow> trigger list" where
  "forEach_addedNodes nodes log =
     fold (\<lambda>node log. if \<not> mayContainsVideoElement node then log else log @ [SetTimeout 1000])
       nodes log"

definition forEach_removedNodes :: "node list \<Rightarrow> trigger list \<Rightarrow> trigger list" where
  "forEach_removedNodes nodes log =
     fold (\<lambda>node log. if \<not> mayContainsVideoElement node then log else log @ [SetTimeout 0])
       nodes log"

text \<open>The callback given to \<^verbatim>\<open>MutationObserver\<close>, on one batch of records.\<close>

definition observer_callback :: "mutation list \<Rightarrow> trigger list \<Rightarrow> trigger list" where
  "observer_callback mutations log =
     fold (\<lambda>mutation log.
             forEach_removedNodes (removedNodes mutation)
               (forEach_addedNodes (addedNodes mutation) log))
       mutations log"

text \<open>
  \<^verbatim>\<open>listenVideoUpdate\<close> installs the observer and the \<^verbatim>\<open>hashchange\<close> listener
  and sets one timer; afterwards the watcher reacts to batches of mutation records and to
  \<^verbatim>\<open>hashchange\<close> events, whose listener is \<^verbatim>\<open>onVideoUpdate\<close> itself.
\<close>

definition listenVideoUpdate :: "trigger list" where
  "listenVideoUpdate = [SetTimeout 0]"

datatype watcher_event = Mutations "mutation list" | HashChange

fun watcher :: "watcher_event \<Rightarrow> trigger list \<Rightarrow> trigger list" where
  "watcher (Mutations mutations) log = observer_callback mutations log"
| "watcher HashChange log = log @ [Call]"

subsection \<open>Selection state\<close>

text \<open>
  The two refs \<^verbatim>\<open>videoElements\<close> and \<^verbatim>\<open>videoSelectedIndex\<close>. The index is
  written by the script with 0 and by the picker with \<^verbatim>\<open>index - 1\<close> for
  \<^verbatim>\<open>index\<close> from 1, so it is a natural number. The computed \<^verbatim>\<open>video\<close> is
  \<^verbatim>\<open>videoElements.value[videoSelectedIndex.value]\<close>: reading an array past its end
  gives \<^verbatim>\<open>undefined\<close>, here \<open>None\<close>.
\<close>

record 'v selection =
  videoElements :: "'v list"
  videoSelectedIndex :: nat

definition video :: "'v selection \<Rightarrow> 'v option" where
  "video st =
     (if videoSelectedIndex st < length (videoElements st)
      then Some (videoElements st ! videoSelectedIndex st)
      else None)"

text \<open>
  The callback of \<^verbatim>\<open>init\<close>, from the list \<^verbatim>\<open>getAllValidVideoElements()\<close>
  returned. An element is an object, so \<^verbatim>\<open>!video.value\<close> holds exactly when the
  read gave \<^verbatim>\<open>undefined\<close>.
\<close>

definition onVideoUpdate :: "'v list \<Rightarrow> 'v selection \<Rightarrow> 'v selection" where
  "onVideoUpdate found st =
     (let st1 = st\<lparr>videoElements := found\<rparr>
      in if length (videoElements st1) \<noteq> 0 \<and> video st1 = None
         then st1\<lparr>videoSelectedIndex := 0\<rparr>
         else st1)"

text \<open>
  The state at load, and what can happen to it: a run of the callback, or the radio button
  of the picker bound by \<^verbatim>\<open>v-model\<close>, which assigns the index.
\<close>

definition initial :: "'v selection" where
  "initial = \<lparr>videoElements = [], videoSelectedIndex = 0\<rparr>"

datatype 'v action = Discovered "'v list" | Picked nat

fun step :: "'v selection \<Rightarrow> 'v action \<Rightarrow> 'v selection" where
  "step st (Discovered found) = onVideoUpdate found st"
| "step st (Picked k) = st\<lparr>videoSelectedIndex := k\<rparr>"

definition run :: "'v action list \<Rightarrow> 'v selection" where
  "run actions = foldl step initial actions"

subsection \<open>The key router\<close>

text \<open>
  Of a keyboard event the script reads the tag name of the target (absent when the target
  is no element) and the three modifier flags, and it may call
  \<^verbatim>\<open>stopImmediatePropagation\<close> and \<^verbatim>\<open>preventDefault\<close>, which set the last two
  flags.
\<close>

record key_event =
  key :: string
  target_tagName :: "string option"
  metaKey :: bool
  altKey :: bool
  ctrlKey :: bool
  propagationStopped :: bool
  defaultPrevented :: bool

definition shouldMapKey :: "'v selection \<Rightarrow> key_event \<Rightarrow> bool" where
  "shouldMapKey st event =
     (if (case target_tagName event of
            None \<Rightarrow> False
          | Some tagName \<Rightarrow> toLowerCase tagName \<in> set [''input'', ''textarea''])
      then False
      else if metaKey event \<or> altKey event \<or> ctrlKey event then False
      else if video st = None then False
      else True)"

text \<open>
  The plugins are imported from \<^verbatim>\<open>../plugins\<close>, so they are a parameter. A plugin has
  the two handlers; a handler gets the context (the event and the active video) and returns
  a boolean. What a handler does to the video, to the toast and to the plugin's own fields
  is a change of a world \<open>'w\<close> that the handlers share.
\<close>

datatype event_type = keyup | keydown

record 'v key_context =
  event :: key_event
  ctx_video :: "'v option"

record ('v, 'w) plugin =
  onKeyUp :: "'v key_context \<Rightarrow> 'w \<Rightarrow> bool \<times> 'w"
  onKeyDown :: "'v key_context \<Rightarrow> 'w \<Rightarrow> bool \<times> 'w"

definition fnMap :: "event_type \<Rightarrow> ('v, 'w) plugin \<Rightarrow> 'v key_context \<Rightarrow> 'w \<Rightarrow> bool \<times> 'w" where
  "fnMap type = (case type of keyup \<Rightarrow> onKeyUp | keydown \<Rightarrow> onKeyDown)"

text \<open>
  The state of the loop over the plugins: the variable \<^verbatim>\<open>ret\<close>, the world, and the
  log of the handler calls made, each with the position of its plugin in
  \<^verbatim>\<open>plugins\<close> and the value it returned.
\<close>

record 'w dispatch =
  ret :: bool
  world :: 'w
  calls :: "(nat \<times> bool) list"

text \<open>
  \<^verbatim>\<open>ret ||= plugin[fnMap[type]]({...})\<close> is the logical OR assignment: its right side
  is evaluated, and assigned, only when \<^verbatim>\<open>ret\<close> is false.
\<close>

fun forEach_plugins ::
  "event_type \<Rightarrow> 'v key_context \<Rightarrow> ('v, 'w) plugin list \<Rightarrow> nat \<Rightarrow> 'w dispatch \<Rightarrow> 'w dispatch" where
  "forEach_plugins type ctx [] index d = d"
| "forEach_plugins type ctx (plugin # rest) index d =
     forEach_plugins type ctx rest (Suc index)
       (if ret d then d
        else (case fnMap type plugin ctx (world d) of
                (r, w) \<Rightarrow> \<lparr>ret = r, world = w, calls = calls d @ [(index, r)]\<rparr>))"

text \<open>
  The listener that \<^verbatim>\<open>listenKeyEvent(type)\<close> adds to the window, on one event: the
  event as the listener leaves it, and the final state of the loop.
\<close>

definition listenKeyEvent ::
  "event_type \<Rightarrow> ('v, 'w) plugin list \<Rightarrow> 'v selection \<Rightarrow> key_event \<Rightarrow> 'w \<Rightarrow> key_event \<times> 'w dispatch" where
  "listenKeyEvent type plugins st ev w =
     (if \<not> shouldMapKey st ev then (ev, \<lparr>ret = False, world = w, calls = []\<rparr>)
      else
        (let d = forEach_plugins type \<lparr>event = ev, ctx_video = video st\<rparr> plugins 0
                   \<lparr>ret = False, world = w, calls = []\<rparr>
         in (if ret d then ev\<lparr>propagationStopped := True, defaultPrevented := True\<rparr> else ev, d)))"

subsection \<open>The outlines of the picker\<close>

text \<open>
  \<^verbatim>\<open>selectVideo\<close> and \<^verbatim>\<open>unselectVideo\<close> read the parent element of a video and
  the first element child of that parent, and insert or remove a child of the parent. The
  page is modelled by what they read and write: the parent of every video, and for every
  parent its element children in order (nodes of other types are skipped by
  \<^verbatim>\<open>firstElementChild\<close>, and \<^verbatim>\<open>prepend\<close> puts the new element before all of
  them). A child is given by its class name and, when it is one of the videos, by that video.
\<close>

type_synonym pid = nat

datatype 'v elem = Elem (elem_className: string) (elem_video: "'v option")

record 'v page =
  parentElement :: "'v \<Rightarrow> pid option"
  elementChildren :: "pid \<Rightarrow> 'v elem list"

definition outline_class :: string where
  "outline_class = ''video-controller-video-outline''"

definition firstElementChild :: "'v page \<Rightarrow> pid \<Rightarrow> 'v elem option" where
  "firstElementChild pg p = (case elementChildren pg p of [] \<Rightarrow> None | c # _ \<Rightarrow> Some c)"

text \<open>\<^verbatim>\<open>video.parentElement?.firstElementChild?.className\<close>.\<close>

definition first_className :: "'v page \<Rightarrow> 'v \<Rightarrow> string option" where
  "first_className pg v =
     (case parentElement pg v of
        None \<Rightarrow> None
      | Some p \<Rightarrow> (case firstElementChild pg p of None \<Rightarrow> None | Some c \<Rightarrow> Some (elem_className c)))"

text \<open>\<^verbatim>\<open>parent.prepend(div)\<close>, for the new \<^verbatim>\<open>div\<close> of the outline class.\<close>

definition prepend :: "pid \<Rightarrow> 'v page \<Rightarrow> 'v page" where
  "prepend p pg =
     pg\<lparr>elementChildren := (elementChildren pg)(p := Elem outline_class None # elementChildren pg p)\<rparr>"

text \<open>
  \<^verbatim>\<open>parent.firstElementChild.remove()\<close>: the child leaves the parent, and has no
  parent any more.
\<close>

definition remove_first :: "pid \<Rightarrow> 'v page \<Rightarrow> 'v page" where
  "remove_first p pg =
     (case elementChildren pg p of
        [] \<Rightarrow> pg
      | c # cs \<Rightarrow>
          pg\<lparr>elementChildren := (elementChildren pg)(p := cs),
             parentElement :=
               (case elem_video c of
                  None \<Rightarrow> parentElement pg
                | Some v \<Rightarrow> (parentElement pg)(v := None))\<rparr>)"

text \<open>
  Both functions read \<^verbatim>\<open>videoElements.value[index]\<close> first; past the end of the list
  that is \<^verbatim>\<open>undefined\<close>, and reading \<^verbatim>\<open>parentElement\<close> of it raises a
  \<^verbatim>\<open>TypeError\<close>. With no parent, \<^verbatim>\<open>selectVideo\<close> creates the \<^verbatim>\<open>div\<close> and
  inserts it nowhere.
\<close>

definition selectVideo :: "'v list \<Rightarrow> nat \<Rightarrow> 'v page \<Rightarrow> error + 'v page" where
  "selectVideo videos index pg =
     (if \<not> index < length videos then Inl TypeError
      else
        (let v = videos ! index
         in if first_className pg v = Some outline_class then Inr pg
            else (case parentElement pg v of
                    None \<Rightarrow> Inr pg
                  | Some p \<Rightarrow> Inr (prepend p pg))))"

definition unselectVideo :: "'v list \<Rightarrow> nat \<Rightarrow> 'v page \<Rightarrow> error + 'v page" where
  "unselectVideo videos index pg =
     (if \<not> index < length videos then Inl TypeError
      else
        (let v = videos ! index
         in if first_className pg v \<noteq> Some outline_class then Inr pg
            else (case parentElement pg v of
                    None \<Rightarrow> Inr pg
                  | Some p \<Rightarrow> Inr (remove_first p pg))))"

subsection \<open>Nodes that may hold a video\<close>

text \<open>
  The nodes for which the watcher is to ask for a discovery, in the words of the
  specification: the node is a video element, or its class name suggests video (some five
  consecutive characters of it are the letters of \<^verbatim>\<open>video\<close>, each in either case), or
  it contains a nested frame (an \<^verbatim>\<open>IFRAME\<close> element among its descendants). None of
  this refers to the functions of the script.
\<close>

definition spells_video :: "string \<Rightarrow> bool" where
  "spells_video w =
     list_all2 (\<lambda>a lu. a = fst lu \<or> a = snd lu) w
       [(CHR ''v'', CHR ''V''), (CHR ''i'', CHR ''I''), (CHR ''d'', CHR ''D''),
        (CHR ''e'', CHR ''E''), (CHR ''o'', CHR ''O'')]"

definition class_suggests_video :: "string \<Rightarrow> bool" where
  "class_suggests_video c = (\<exists>pre w post. c = pre @ w @ post \<and> spells_video w)"

fun descendants :: "node \<Rightarrow> node list" where
  "descendants NonElement = []"
| "descendants (Element n c s ch) = concat (map (\<lambda>k. k # descendants k) ch)"

fun is_frame :: "node \<Rightarrow> bool" where
  "is_frame NonElement = False"
| "is_frame (Element n c s ch) = (n = ''IFRAME'')"

definition plausible :: "node \<Rightarrow> bool" where
  "plausible node =
     (case node of
        NonElement \<Rightarrow> False
      | Element n c s ch \<Rightarrow>
          n = ''VIDEO'' \<or> class_suggests_video c \<or> list_ex is_frame (descendants node))"

subsection \<open>Nodes that give the watcher no hint\<close>

text \<open>
  The nodes the plausibility test is to reject: a node that is no element, or an element
  that is not named \<^verbatim>\<open>VIDEO\<close>, whose class name does not hold \<^verbatim>\<open>video\<close> in any
  case, and that has no \<^verbatim>\<open>IFRAME\<close> element below it.
\<close>

definition unhinted :: "node \<Rightarrow> bool" where
  "unhinted node =
     (case node of
        NonElement \<Rightarrow> True
      | Element n c s ch \<Rightarrow>
          n \<noteq> ''VIDEO'' \<and> \<not> regex_video_i_test c \<and> concat (map (elements_named ''IFRAME'') ch) = [])"

subsection \<open>Concrete pages, states and plugins\<close>

text \<open>
  Videos: one with a source, one whose source is given by a \<^verbatim>\<open>source\<close> child only
  (its \<^verbatim>\<open>src\<close> is empty), and two more with a source.
\<close>

definition movie :: node where
  "movie = Element ''VIDEO'' [] ''https://a.example/m.mp4'' []"

definition unsourced :: node where
  "unsourced = Element ''VIDEO'' ''video-js'' [] [Element ''SOURCE'' [] ''https://a.example/n.mp4'' []]"

definition trailer :: node where
  "trailer = Element ''VIDEO'' [] ''https://a.example/t.webm'' []"

definition advert :: node where
  "advert = Element ''VIDEO'' [] ''https://ads.example/ad.mp4'' []"

text \<open>A \<^verbatim>\<open>div\<close> of class \<^verbatim>\<open>player-box\<close> around a text node and a video.\<close>

definition wrapped_player :: node where
  "wrapped_player =
     Element ''DIV'' ''player-box'' [] [NonElement, movie]"

text \<open>
  More nodes: a \<^verbatim>\<open>div\<close> whose class name holds \<^verbatim>\<open>Video\<close>, a \<^verbatim>\<open>div\<close> with
  an \<^verbatim>\<open>iframe\<close> two levels below it, and a \<^verbatim>\<open>div\<close> with neither; and a batch of
  two mutation records over them.
\<close>

definition video_box :: node where
  "video_box = Element ''DIV'' ''my-Video-box'' [] []"

definition frame_wrapper :: node where
  "frame_wrapper =
     Element ''DIV'' ''embed'' []
       [NonElement, Element ''SPAN'' [] [] [Element ''IFRAME'' [] ''https://b.example/player'' []]]"

definition plain_box :: node where
  "plain_box = Element ''DIV'' ''sidebar'' [] [NonElement, Element ''SPAN'' ''vid'' [] []]"

definition batch :: "mutation list" where
  "batch =
     [\<lparr>addedNodes = [movie, video_box, plain_box, NonElement], removedNodes = []\<rparr>,
      \<lparr>addedNodes = [frame_wrapper], removedNodes = [plain_box, movie]\<rparr>]"

text \<open>Selection states, with strings for the videos.\<close>

definition third_of_three :: "string selection" where
  "third_of_three = \<lparr>videoElements = [''a'', ''b'', ''c''], videoSelectedIndex = 2\<rparr>"

definition second_of_none :: "string selection" where
  "second_of_none = \<lparr>videoElements = [], videoSelectedIndex = 1\<rparr>"

definition playing :: "string selection" where
  "playing = \<lparr>videoElements = [''v0''], videoSelectedIndex = 0\<rparr>"

text \<open>
  Key events: a plain key with the body as target, the same key typed into an
  \<^verbatim>\<open>input\<close> element, and the same key with the control key held.
\<close>

definition plain_key :: key_event where
  "plain_key = \<lparr>key = ''k'', target_tagName = Some ''BODY'', metaKey = False, altKey = False,
     ctrlKey = False, propagationStopped = False, defaultPrevented = False\<rparr>"

definition typing_key :: key_event where
  "typing_key = \<lparr>key = ''k'', target_tagName = Some ''INPUT'', metaKey = False, altKey = False,
     ctrlKey = False, propagationStopped = False, defaultPrevented = False\<rparr>"

definition ctrl_key :: key_event where
  "ctrl_key = \<lparr>key = ''k'', target_tagName = Some ''BODY'', metaKey = False, altKey = False,
     ctrlKey = True, propagationStopped = False, defaultPrevented = False\<rparr>"

text \<open>
  Two plugins whose world is the list of the handlers that ran: one claims every key, the
  other claims none.
\<close>

definition claiming :: "(string, string list) plugin" where
  "claiming = \<lparr>onKeyUp = (\<lambda>ctx w. (True, w @ [''claiming''])),
                onKeyDown = (\<lambda>ctx w. (True, w @ [''claiming'']))\<rparr>"

definition passing :: "(string, string list) plugin" where
  "passing = \<lparr>onKeyUp = (\<lambda>ctx w. (False, w @ [''passing''])),
               onKeyDown = (\<lambda>ctx w. (False, w @ [''passing'']))\<rparr>"

text \<open>
  Pages. In \<open>readable_page\<close> the cross-origin frame has no frame of its own; in
  \<open>nested_foreign_page\<close> and \<open>embedding_page\<close> a cross-origin frame holds a frame.
\<close>

definition readable_page :: window where
  "readable_page =
     Window SameOrigin [Element ''DIV'' ''main'' [] [unsourced, movie], NonElement]
       [Window CrossOrigin [advert] [],
        Window SameOrigin [] [Window SameOrigin [trailer] []]]"

definition nested_foreign_page :: window where
  "nested_foreign_page =
     Window SameOrigin [movie] [Window CrossOrigin [] [Window CrossOrigin [] []]]"

definition embedding_page :: window where
  "embedding_page =
     Window SameOrigin [movie]
       [Window SameOrigin [trailer] [],
        Window CrossOrigin [advert] [Window SameOrigin [] []]]"

text \<open>
  A page for the picker: the video \<^verbatim>\<open>v0\<close> is the second element child of the
  element 7, after a title.
\<close>

definition framed_page :: "string page" where
  "framed_page =
     \<lparr>parentElement = (\<lambda>v. if v = ''v0'' then Some 7 else None),
      elementChildren =
        (\<lambda>p. if p = 7 then [Elem ''title'' None, Elem ''player'' (Some ''v0'')] else [])\<rparr>"

section \<open>Properties\<close>

subsection \<open>Video discovery\<close>

text \<open>
  What the function returns on every tree of windows: the list of the specification when
  every cross-origin window of the tree is a leaf, and the exception otherwise.
\<close>

lemma forEach_frames_result:
  assumes "\<And>f. f \<in> set fs \<Longrightarrow>
             getAllValidVideoElements f = (if enumerable f then Inr (discover f) else Inl SecurityError)"
  shows "forEach_frames fs acc =
     (if list_all enumerable fs then Inr (acc @ concat (map discover fs)) else Inl SecurityError)"
  using assms by (induction fs arbitrary: acc) simp_all

lemma getAllValidVideoElements_result:
  "getAllValidVideoElements w = (if enumerable w then Inr (discover w) else Inl SecurityError)"
proof (induction w)
  case (Window og doc fs)
  have loop: "forEach_frames fs acc =
     (if list_all enumerable fs then Inr (acc @ concat (map discover fs)) else Inl SecurityError)"
    for acc
    by (rule forEach_frames_result) (simp add: Window.IH)
  show ?case
  proof (cases fs)
    case Nil
    then show ?thesis
      by (cases og) (simp_all add: get_document_def frames_length_def)
  next
    case (Cons f fs')
    then have "fs \<noteq> []" by simp
    then show ?thesis
      by (cases og)
        (simp_all add: get_document_def frames_length_def Array_from_frames_def loop
          del: forEach_frames.simps)
  qed
qed

lemma getAllValidVideoElements_enumerable:
  "enumerable w \<Longrightarrow> getAllValidVideoElements w = Inr (discover w)"
  by (simp add: getAllValidVideoElements_result)

text \<open>
  A cross-origin frame without frames gives no video; every node of the list of the
  specification, and so of every list the function returns, is a video with a source; on \<open>readable_page\<close> the function returns the
  two sourced videos of the readable documents, the top document first.
\<close>

lemma cross_origin_leaf_gives_nothing:
  "getAllValidVideoElements (Window CrossOrigin doc []) = Inr []"
  by (simp add: get_document_def frames_length_def)

lemma discover_sourced_videos:
  "v \<in> set (discover w) \<Longrightarrow> nodeName v = ''VIDEO'' \<and> src v \<noteq> []"
proof (induction w arbitrary: v)
  case (Window og doc fs)
  have named: "x \<in> set (elements_named t n) \<Longrightarrow> nodeName x = t" for x t n
    by (induction t n rule: elements_named.induct) (auto split: if_splits)
  from Window show ?case
    by (cases og) (auto simp: querySelectorAll_def dest: named)
qed

lemma getAllValidVideoElements_sourced_videos:
  assumes "getAllValidVideoElements w = Inr vs" and "v \<in> set vs"
  shows "nodeName v = ''VIDEO'' \<and> src v \<noteq> []"
proof -
  from assms(1) have "vs = discover w"
    by (simp add: getAllValidVideoElements_result split: if_splits)
  with assms(2) show ?thesis by (simp add: discover_sourced_videos)
qed

lemma getAllValidVideoElements_readable_page:
  "getAllValidVideoElements readable_page = Inr [movie, trailer]"
  by (simp add: readable_page_def get_document_def frames_length_def Array_from_frames_def
      querySelectorAll_def movie_def unsourced_def trailer_def advert_def)

text \<open>
  Claim C5 is that discovery never raises past the frame whose access fails. The
  \<^verbatim>\<open>try\<close> block covers the read of \<^verbatim>\<open>frame.document\<close> only: on a page with a
  cross-origin frame that holds a frame, \<^verbatim>\<open>Array.from(frame.frames)\<close> raises outside
  of it, and the call ends with the exception.
\<close>

theorem getAllValidVideoElements_raises:
  "getAllValidVideoElements nested_foreign_page = Inl SecurityError"
  by (simp add: nested_foreign_page_def get_document_def frames_length_def Array_from_frames_def
      querySelectorAll_def movie_def)

text \<open>
  Claim C6 is that on every tree of windows the function returns the sourced videos, the
  document first and then the frames in order. On \<open>embedding_page\<close> that list has the two
  videos of the readable documents; the function returns no list, by the exception of C5.
\<close>

theorem getAllValidVideoElements_returns_no_list:
  "getAllValidVideoElements embedding_page = Inl SecurityError
   \<and> discover embedding_page = [movie, trailer]"
  by (simp add: embedding_page_def get_document_def frames_length_def Array_from_frames_def
      querySelectorAll_def movie_def trailer_def advert_def)

subsection \<open>The mutation watcher\<close>

text \<open>
  Both loops over nodes append to the log one timer per node that passes the test, and
  nothing else.
\<close>

lemma forEach_addedNodes_log:
  "forEach_addedNodes nodes log =
     log @ map (\<lambda>_. SetTimeout 1000) (filter mayContainsVideoElement nodes)"
  unfolding forEach_addedNodes_def by (induction nodes arbitrary: log) simp_all

lemma forEach_removedNodes_log:
  "forEach_removedNodes nodes log =
     log @ map (\<lambda>_. SetTimeout 0) (filter mayContainsVideoElement nodes)"
  unfolding forEach_removedNodes_def by (induction nodes arbitrary: log) simp_all

lemma observer_callback_log:
  "observer_callback mutations log =
     log @ concat (map (\<lambda>m. map (\<lambda>_. SetTimeout 1000) (filter mayContainsVideoElement (addedNodes m))
                          @ map (\<lambda>_. SetTimeout 0) (filter mayContainsVideoElement (removedNodes m)))
                   mutations)"
  unfolding observer_callback_def
  by (induction mutations arbitrary: log)
    (simp_all add: forEach_addedNodes_log forEach_removedNodes_log)

lemma count_list_append: "count_list (xs @ ys) x = count_list xs x + count_list ys x"
  by (induction xs) simp_all

lemma count_list_const: "count_list (map (\<lambda>_. a) xs) b = (if a = b then length xs else 0)"
  by (induction xs) auto

text \<open>
  The test of the script and the description of the specification agree on every node:
  the pattern matches exactly the class names that hold the letters of \<^verbatim>\<open>video\<close> in
  some case, and the query finds an element exactly when an \<^verbatim>\<open>IFRAME\<close> element is
  among the descendants.
\<close>

lemma toLowerCase_char_v: "toLowerCase_char a = CHR ''v'' \<longleftrightarrow> a = CHR ''v'' \<or> a = CHR ''V''"
  by (auto simp: toLowerCase_char_def split: if_splits)

lemma toLowerCase_char_i: "toLowerCase_char a = CHR ''i'' \<longleftrightarrow> a = CHR ''i'' \<or> a = CHR ''I''"
  by (auto simp: toLowerCase_char_def split: if_splits)

lemma toLowerCase_char_d: "toLowerCase_char a = CHR ''d'' \<longleftrightarrow> a = CHR ''d'' \<or> a = CHR ''D''"
  by (auto simp: toLowerCase_char_def split: if_splits)

lemma toLowerCase_char_e: "toLowerCase_char a = CHR ''e'' \<longleftrightarrow> a = CHR ''e'' \<or> a = CHR ''E''"
  by (auto simp: toLowerCase_char_def split: if_splits)

lemma toLowerCase_char_o: "toLowerCase_char a = CHR ''o'' \<longleftrightarrow> a = CHR ''o'' \<or> a = CHR ''O''"
  by (auto simp: toLowerCase_char_def split: if_splits)

lemma toLowerCase_video: "toLowerCase w = ''video'' \<longleftrightarrow> spells_video w"
  by (simp add: toLowerCase_def spells_video_def map_eq_Cons_conv list_all2_Cons2
      toLowerCase_char_v toLowerCase_char_i toLowerCase_char_d toLowerCase_char_e
      toLowerCase_char_o)

lemma regex_video_i_test_substring:
  "regex_video_i_test s \<longleftrightarrow> (\<exists>pre w post. s = pre @ w @ post \<and> toLowerCase w = ''video'')"
proof (induction s)
  case Nil
  then show ?case by (simp add: toLowerCase_def)
next
  case (Cons c cs)
  show ?case
  proof
    assume "regex_video_i_test (c # cs)"
    then consider "toLowerCase (take 5 (c # cs)) = ''video''" | "regex_video_i_test cs"
      by auto
    then show "\<exists>pre w post. c # cs = pre @ w @ post \<and> toLowerCase w = ''video''"
    proof cases
      case 1
      have "c # cs = [] @ take 5 (c # cs) @ drop 5 (c # cs)" by simp
      with 1 show ?thesis by blast
    next
      case 2
      with Cons.IH obtain pre w post where "cs = pre @ w @ post" "toLowerCase w = ''video''"
        by blast
      then have "c # cs = (c # pre) @ w @ post \<and> toLowerCase w = ''video''" by simp
      then show ?thesis by blast
    qed
  next
    assume "\<exists>pre w post. c # cs = pre @ w @ post \<and> toLowerCase w = ''video''"
    then obtain pre w post where d: "c # cs = pre @ w @ post" and w: "toLowerCase w = ''video''"
      by blast
    from w have "length (map toLowerCase_char w) = length ''video''"
      by (simp add: toLowerCase_def)
    then have l: "length w = 5" by simp
    show "regex_video_i_test (c # cs)"
    proof (cases pre)
      case Nil
      with d l have "take 5 (c # cs) = w" by simp
      with w show ?thesis by simp
    next
      case (Cons p pre')
      with d have "cs = pre' @ w @ post" by simp
      with w Cons.IH have "regex_video_i_test cs" by blast
      then show ?thesis by simp
    qed
  qed
qed

lemma regex_video_i_test_class: "regex_video_i_test c = class_suggests_video c"
  by (simp add: regex_video_i_test_substring class_suggests_video_def toLowerCase_video)

lemma is_frame_elements_named:
  "set (elements_named ''IFRAME'' k) = {d \<in> set (k # descendants k). is_frame d}"
proof (induction k)
  case (Element n c s ch)
  have "set (concat (map (elements_named ''IFRAME'') ch)) =
          {d \<in> set (concat (map (\<lambda>k. k # descendants k) ch)). is_frame d}"
    using Element.IH by auto
  then show ?case by auto
next
  case NonElement
  show ?case by simp
qed

lemma querySelector_frame:
  "querySelector ''IFRAME'' (Element n c s ch) \<noteq> None
     \<longleftrightarrow> list_ex is_frame (descendants (Element n c s ch))"
proof -
  have "querySelector ''IFRAME'' (Element n c s ch) \<noteq> None
          \<longleftrightarrow> set (concat (map (elements_named ''IFRAME'') ch)) \<noteq> {}"
    by (cases "concat (map (elements_named ''IFRAME'') ch)")
      (simp_all del: concat_eq_Nil_conv set_concat)
  also have "set (concat (map (elements_named ''IFRAME'') ch)) =
          {d \<in> set (concat (map (\<lambda>k. k # descendants k) ch)). is_frame d}"
    using is_frame_elements_named by auto
  finally show ?thesis by (auto simp: list_ex_iff)
qed

lemma mayContainsVideoElement_plausible: "mayContainsVideoElement node = plausible node"
proof (cases node)
  case (Element n c s ch)
  then show ?thesis
    using querySelector_frame [of n c s ch]
    by (simp add: plausible_def regex_video_i_test_class del: querySelector.simps descendants.simps)
next
  case NonElement
  then show ?thesis by (simp add: plausible_def)
qed

text \<open>
  Claim C7. On a batch of mutation records the watcher sets, in the order of the records,
  one timer of 1000 ms for each added node that is a video element, has a class name that
  suggests video or contains a nested frame, and one timer of delay 0 for each removed node
  of that kind, and nothing else; at start \<^verbatim>\<open>listenVideoUpdate\<close> sets one timer of delay
  0, and every \<^verbatim>\<open>hashchange\<close> event calls the callback at once.
\<close>

theorem watcher_schedules_per_node:
  "observer_callback mutations log =
     log @ concat (map (\<lambda>m. map (\<lambda>_. SetTimeout 1000) (filter plausible (addedNodes m))
                          @ map (\<lambda>_. SetTimeout 0) (filter plausible (removedNodes m)))
                   mutations)
   \<and> count_list (observer_callback mutations []) (SetTimeout 1000) =
     length (filter plausible (concat (map addedNodes mutations)))
   \<and> count_list (observer_callback mutations []) (SetTimeout 0) =
     length (filter plausible (concat (map removedNodes mutations)))
   \<and> length (observer_callback mutations []) =
     length (filter plausible (concat (map addedNodes mutations)))
     + length (filter plausible (concat (map removedNodes mutations)))
   \<and> watcher (Mutations mutations) log = log @ observer_callback mutations []
   \<and> listenVideoUpdate = [SetTimeout 0]
   \<and> watcher HashChange log = log @ [Call]"
proof -
  have p: "mayContainsVideoElement = plausible"
    by (rule ext) (rule mayContainsVideoElement_plausible)
  note cb = observer_callback_log [unfolded p]
  have a: "count_list (observer_callback mutations []) (SetTimeout 1000) =
     length (filter plausible (concat (map addedNodes mutations)))"
    unfolding cb
    by (induction mutations) (simp_all add: count_list_append count_list_const)
  have r: "count_list (observer_callback mutations []) (SetTimeout 0) =
     length (filter plausible (concat (map removedNodes mutations)))"
    unfolding cb
    by (induction mutations) (simp_all add: count_list_append count_list_const)
  have l: "length (observer_callback mutations []) =
     length (filter plausible (concat (map addedNodes mutations)))
     + length (filter plausible (concat (map removedNodes mutations)))"
    unfolding cb
    by (induction mutations) simp_all
  have w: "watcher (Mutations mutations) log = log @ observer_callback mutations []"
    by (simp add: cb [of mutations log] cb [of mutations "[]"])
  show ?thesis using a r l w cb [of mutations log] by (simp add: listenVideoUpdate_def)
qed

text \<open>
  On \<open>batch\<close>: the video, the box named after video and the wrapper of a frame are added,
  which gives three timers of 1000 ms; the removed video gives one timer of delay 0; the plain
  box and the text node give none, added or removed.
\<close>

lemma mayContainsVideoElement_examples:
  "mayContainsVideoElement movie" "mayContainsVideoElement video_box"
  "mayContainsVideoElement frame_wrapper" "\<not> mayContainsVideoElement plain_box"
  by (simp_all add: movie_def video_box_def frame_wrapper_def plain_box_def
      toLowerCase_def toLowerCase_char_def)

lemma observer_callback_batch:
  "observer_callback batch [] = [SetTimeout 1000, SetTimeout 1000, SetTimeout 1000, SetTimeout 0]"
  by (simp add: batch_def observer_callback_def forEach_addedNodes_def forEach_removedNodes_def
      mayContainsVideoElement_examples)

theorem watcher_schedules_per_node_witness:
  "plausible movie \<and> plausible video_box \<and> plausible frame_wrapper
   \<and> \<not> plausible plain_box \<and> \<not> plausible NonElement
   \<and> observer_callback batch [] =
       [SetTimeout 1000, SetTimeout 1000, SetTimeout 1000, SetTimeout 0]
   \<and> count_list (observer_callback batch []) (SetTimeout 1000) = 3
   \<and> count_list (observer_callback batch []) (SetTimeout 0) = 1"
proof -
  have e: "plausible movie" "plausible video_box" "plausible frame_wrapper"
    "\<not> plausible plain_box" "\<not> plausible NonElement"
    using mayContainsVideoElement_examples
    by (simp_all add: mayContainsVideoElement_plausible [symmetric])
  note t = watcher_schedules_per_node [of batch "[]"]
  from t have l: "observer_callback batch [] =
     concat (map (\<lambda>m. map (\<lambda>_. SetTimeout 1000) (filter plausible (addedNodes m))
                        @ map (\<lambda>_. SetTimeout 0) (filter plausible (removedNodes m)))
                 batch)"
    by simp
  from t have a: "count_list (observer_callback batch []) (SetTimeout 1000) =
     length (filter plausible (concat (map addedNodes batch)))"
    by blast
  from t have r: "count_list (observer_callback batch []) (SetTimeout 0) =
     length (filter plausible (concat (map removedNodes batch)))"
    by blast
  have l': "observer_callback batch [] =
       [SetTimeout 1000, SetTimeout 1000, SetTimeout 1000, SetTimeout 0]"
    unfolding l by (simp add: batch_def e)
  have a': "count_list (observer_callback batch []) (SetTimeout 1000) = 3"
    unfolding a by (simp add: batch_def e)
  have r': "count_list (observer_callback batch []) (SetTimeout 0) = 1"
    unfolding r by (simp add: batch_def e)
  from e l' a' r' show ?thesis by blast
qed

lemma mayContainsVideoElement_unhinted: "mayContainsVideoElement node = (\<not> unhinted node)"
proof (cases node)
  case (Element n c s ch)
  then show ?thesis
    by (cases "concat (map (elements_named ''IFRAME'') ch)")
      (simp_all add: unhinted_def del: concat_eq_Nil_conv)
next
  case NonElement
  then show ?thesis by (simp add: unhinted_def)
qed

text \<open>
  Claim C10. The test is false for every node that is no element and for every element
  that is not named \<^verbatim>\<open>VIDEO\<close>, has no \<^verbatim>\<open>video\<close> in its class name and no
  \<^verbatim>\<open>IFRAME\<close> below it, whatever else its subtree holds; a batch that adds only such
  nodes sets no timer.
\<close>

theorem unhinted_node_schedules_nothing:
  "(unhinted node \<longrightarrow> \<not> mayContainsVideoElement node)
   \<and> (list_all unhinted nodes \<longrightarrow>
        observer_callback [\<lparr>addedNodes = nodes, removedNodes = []\<rparr>] log = log)"
proof -
  have "filter mayContainsVideoElement nodes = []" if "list_all unhinted nodes"
    using that by (induction nodes) (simp_all add: mayContainsVideoElement_unhinted)
  then show ?thesis
    by (simp add: mayContainsVideoElement_unhinted observer_callback_log)
qed

text \<open>
  The wrapper \<open>wrapped_player\<close> holds a video, which a query of its document finds; it is
  rejected all the same.
\<close>

theorem unhinted_node_schedules_nothing_witness:
  "unhinted wrapped_player
   \<and> querySelectorAll ''VIDEO'' [wrapped_player] \<noteq> []
   \<and> \<not> mayContainsVideoElement wrapped_player
   \<and> list_all unhinted [wrapped_player, NonElement]
   \<and> observer_callback [\<lparr>addedNodes = [wrapped_player, NonElement], removedNodes = []\<rparr>] [] = []"
proof -
  have u: "unhinted wrapped_player"
    by (simp add: unhinted_def wrapped_player_def movie_def toLowerCase_def toLowerCase_char_def)
  have n: "unhinted NonElement" by (simp add: unhinted_def)
  have v: "querySelectorAll ''VIDEO'' [wrapped_player] \<noteq> []"
    by (simp add: querySelectorAll_def wrapped_player_def movie_def)
  from u n v
    unhinted_node_schedules_nothing [of wrapped_player "[wrapped_player, NonElement]" "[]"]
  show ?thesis by simp
qed

subsection \<open>Selection state\<close>

lemma video_update_list:
  "video (st\<lparr>videoElements := found\<rparr>) = None \<longleftrightarrow> \<not> videoSelectedIndex st < length found"
  by (simp add: video_def)

text \<open>
  Claim C2, as stated, fails: with three videos and the third selected, a discovery that
  finds one video sets the index to 0, although the list before was not empty.
\<close>

theorem onVideoUpdate_keeps_index_counterexample:
  "videoElements third_of_three \<noteq> []
   \<and> videoSelectedIndex third_of_three = 2
   \<and> onVideoUpdate [''a''] third_of_three = \<lparr>videoElements = [''a''], videoSelectedIndex = 0\<rparr>"
  by (simp add: third_of_three_def onVideoUpdate_def video_def)

text \<open>
  It fails in the other direction too: after an empty list, an index that is in range of
  the new list is kept.
\<close>

lemma onVideoUpdate_after_empty_list:
  "videoElements second_of_none = []
   \<and> onVideoUpdate [''x'', ''y'', ''z''] second_of_none =
       \<lparr>videoElements = [''x'', ''y'', ''z''], videoSelectedIndex = 1\<rparr>"
  by (simp add: second_of_none_def onVideoUpdate_def video_def)

text \<open>
  Claim C2, amended. A run of the callback replaces the list, and sets the index to 0
  exactly when the new list is not empty and the index is out of its range; in every other
  case the index is kept, also with an empty new list.
\<close>

theorem onVideoUpdate_resets_stale_index:
  "onVideoUpdate found st =
     \<lparr>videoElements = found,
      videoSelectedIndex =
        (if found \<noteq> [] \<and> \<not> videoSelectedIndex st < length found then 0
         else videoSelectedIndex st)\<rparr>"
  by (simp add: onVideoUpdate_def video_update_list)

text \<open>
  Claim C8. After any sequence of discoveries and picks, the active video is the entry of
  the list at the index when the index is in range, and absent otherwise; it is always
  absent or an entry of the current list.
\<close>

theorem active_video_in_range_or_absent:
  "(videoSelectedIndex (run actions) < length (videoElements (run actions)) \<longrightarrow>
      video (run actions) = Some (videoElements (run actions) ! videoSelectedIndex (run actions)))
   \<and> (\<not> videoSelectedIndex (run actions) < length (videoElements (run actions)) \<longrightarrow>
      video (run actions) = None)
   \<and> video (run actions) \<in> insert None (Some ` set (videoElements (run actions)))"
  by (simp add: video_def)

theorem active_video_in_range_or_absent_witness:
  "run [Discovered [''a'', ''b'', ''c''], Picked 2, Discovered [''a'']] =
     \<lparr>videoElements = [''a''], videoSelectedIndex = 0\<rparr>
   \<and> video (run [Discovered [''a'', ''b'', ''c''], Picked 2, Discovered [''a'']]) = Some ''a''
   \<and> run [Discovered [''a'', ''b''], Picked 1, Discovered []] =
     \<lparr>videoElements = [], videoSelectedIndex = 1\<rparr>
   \<and> video (run [Discovered [''a'', ''b''], Picked 1, Discovered ([] :: string list)]) = None"
proof -
  have r1: "run [Discovered [''a'', ''b'', ''c''], Picked 2, Discovered [''a'']] =
     \<lparr>videoElements = [''a''], videoSelectedIndex = 0\<rparr>"
    by (simp add: run_def initial_def onVideoUpdate_def video_def)
  have r2: "run [Discovered [''a'', ''b''], Picked 1, Discovered []] =
     \<lparr>videoElements = [], videoSelectedIndex = 1\<rparr>"
    by (simp add: run_def initial_def onVideoUpdate_def video_def)
  from active_video_in_range_or_absent [of "[Discovered [''a'', ''b'', ''c''], Picked 2, Discovered [''a'']]"]
    active_video_in_range_or_absent [of "[Discovered [''a'', ''b''], Picked 1, Discovered ([] :: string list)]"]
  show ?thesis unfolding r1 r2 by simp
qed

subsection \<open>The key router\<close>

text \<open>
  Once \<^verbatim>\<open>ret\<close> is true the loop changes nothing any more. From a false
  \<^verbatim>\<open>ret\<close>, the loop calls the handlers in order and logs their results \<open>rs\<close>: all
  but the last are false, and the loop ends with \<^verbatim>\<open>ret\<close> false only after it has
  called every handler.
\<close>

lemma forEach_plugins_ret: "ret d \<Longrightarrow> forEach_plugins type ctx plugins index d = d"
  by (induction plugins arbitrary: index) simp_all

lemma forEach_plugins_calls:
  assumes "\<not> ret d0"
  shows "\<exists>rs. length rs \<le> length plugins
           \<and> calls (forEach_plugins type ctx plugins index d0) =
               calls d0 @ zip [index ..< index + length rs] rs
           \<and> ret (forEach_plugins type ctx plugins index d0) = (rs \<noteq> [] \<and> last rs)
           \<and> (\<forall>r \<in> set (butlast rs). \<not> r)
           \<and> (\<not> ret (forEach_plugins type ctx plugins index d0) \<longrightarrow> length rs = length plugins)"
  using assms
proof (induction plugins arbitrary: index d0)
  case Nil
  then show ?case by simp
next
  case (Cons plugin rest)
  obtain r w where h: "fnMap type plugin ctx (world d0) = (r, w)"
    by (cases "fnMap type plugin ctx (world d0)")
  define d1 where "d1 = \<lparr>ret = r, world = w, calls = calls d0 @ [(index, r)]\<rparr>"
  have unf: "forEach_plugins type ctx (plugin # rest) index d0 =
               forEach_plugins type ctx rest (Suc index) d1"
    using Cons.prems h by (simp add: d1_def)
  show ?case
  proof (cases r)
    case True
    then have "forEach_plugins type ctx rest (Suc index) d1 = d1"
      by (simp add: forEach_plugins_ret d1_def)
    with True unf show ?thesis
      by (intro exI [of _ "[True]"]) (simp add: d1_def)
  next
    case False
    then have "\<not> ret d1" by (simp add: d1_def)
    from Cons.IH [OF this, of "Suc index"] obtain rs where
      rs: "length rs \<le> length rest"
        "calls (forEach_plugins type ctx rest (Suc index) d1) =
           calls d1 @ zip [Suc index ..< Suc index + length rs] rs"
        "ret (forEach_plugins type ctx rest (Suc index) d1) = (rs \<noteq> [] \<and> last rs)"
        "\<forall>r \<in> set (butlast rs). \<not> r"
        "\<not> ret (forEach_plugins type ctx rest (Suc index) d1) \<longrightarrow> length rs = length rest"
      by blast
    have up: "[index ..< index + length (False # rs)] = index # [Suc index ..< Suc index + length rs]"
      by (subst upt_rec) simp
    show ?thesis
      unfolding unf
      apply (intro exI [of _ "False # rs"])
      unfolding up
      using rs False by (auto simp: d1_def)
  qed
qed

lemma listenKeyEvent_calls:
  assumes "shouldMapKey st ev"
  shows "\<exists>rs. length rs \<le> length plugins
           \<and> calls (snd (listenKeyEvent type plugins st ev w)) = zip [0 ..< length rs] rs
           \<and> ret (snd (listenKeyEvent type plugins st ev w)) = (rs \<noteq> [] \<and> last rs)
           \<and> (\<forall>r \<in> set (butlast rs). \<not> r)
           \<and> (\<not> ret (snd (listenKeyEvent type plugins st ev w)) \<longrightarrow> length rs = length plugins)"
proof -
  have "\<not> ret \<lparr>ret = False, world = w, calls = []\<rparr>" by simp
  from forEach_plugins_calls [OF this, of plugins type "\<lparr>event = ev, ctx_video = video st\<rparr>" 0]
  show ?thesis using assms by (simp add: listenKeyEvent_def Let_def)
qed

lemma shouldMapKey_playing_plain_key: "shouldMapKey playing plain_key"
  by (simp add: shouldMapKey_def playing_def plain_key_def video_def
      toLowerCase_def toLowerCase_char_def)

text \<open>
  Claim C1, as stated, fails: with a plugin that claims the key registered before one that
  does not, the handler of the second is never called.
\<close>

theorem dispatch_short_circuit_counterexample:
  "shouldMapKey playing plain_key
   \<and> calls (snd (listenKeyEvent keydown [claiming, passing] playing plain_key [])) = [(0, True)]
   \<and> world (snd (listenKeyEvent keydown [claiming, passing] playing plain_key [])) = [''claiming'']"
  by (simp add: listenKeyEvent_def shouldMapKey_def playing_def plain_key_def video_def
      claiming_def passing_def fnMap_def toLowerCase_def toLowerCase_char_def)

text \<open>
  Claim C1, amended. For every event that passes the filter the router calls the handlers
  in registration order, each at most once, up to and including the first that returns
  true; the plugins after that one are not called. When no handler returns true, every
  plugin's handler is called exactly once.
\<close>

theorem dispatch_until_first_claim:
  assumes "shouldMapKey st ev"
  shows "map fst (calls (snd (listenKeyEvent type plugins st ev w))) =
           [0 ..< length (calls (snd (listenKeyEvent type plugins st ev w)))]
         \<and> length (calls (snd (listenKeyEvent type plugins st ev w))) \<le> length plugins
         \<and> (\<forall>r \<in> set (butlast (map snd (calls (snd (listenKeyEvent type plugins st ev w))))). \<not> r)
         \<and> (ret (snd (listenKeyEvent type plugins st ev w)) \<longrightarrow>
               calls (snd (listenKeyEvent type plugins st ev w)) \<noteq> []
               \<and> snd (last (calls (snd (listenKeyEvent type plugins st ev w)))))
         \<and> (\<not> ret (snd (listenKeyEvent type plugins st ev w)) \<longrightarrow>
               map fst (calls (snd (listenKeyEvent type plugins st ev w))) = [0 ..< length plugins]
               \<and> (\<forall>r \<in> set (map snd (calls (snd (listenKeyEvent type plugins st ev w)))). \<not> r))"
proof -
  from listenKeyEvent_calls [OF assms, of plugins type w] obtain rs where
    rs: "length rs \<le> length plugins"
      "calls (snd (listenKeyEvent type plugins st ev w)) = zip [0 ..< length rs] rs"
      "ret (snd (listenKeyEvent type plugins st ev w)) = (rs \<noteq> [] \<and> last rs)"
      "\<forall>r \<in> set (butlast rs). \<not> r"
      "\<not> ret (snd (listenKeyEvent type plugins st ev w)) \<longrightarrow> length rs = length plugins"
    by blast
  have s: "map snd (zip [0 ..< length rs] rs) = rs" by simp
  have f: "map fst (zip [0 ..< length rs] rs) = [0 ..< length rs]" by simp
  have l: "rs \<noteq> [] \<Longrightarrow> snd (last (zip [0 ..< length rs] rs)) = last rs"
    by (metis s last_map map_is_Nil_conv)
  have n: "\<not> (rs \<noteq> [] \<and> last rs) \<Longrightarrow> \<forall>r \<in> set rs. \<not> r"
    using rs(4) by (cases rs rule: rev_cases) auto
  show ?thesis
    unfolding rs(2) rs(3) s f using rs(1) rs(4) rs(5) l n
    by (auto simp: rs(3))
qed

theorem dispatch_until_first_claim_witness:
  "shouldMapKey playing plain_key
   \<and> calls (snd (listenKeyEvent keyup [passing, claiming, passing] playing plain_key [])) =
       [(0, False), (1, True)]
   \<and> ret (snd (listenKeyEvent keyup [passing, claiming, passing] playing plain_key []))
   \<and> length (calls (snd (listenKeyEvent keyup [passing, claiming, passing] playing plain_key [])))
       \<le> length [passing, claiming, passing]
   \<and> calls (snd (listenKeyEvent keyup [passing, passing] playing plain_key [])) =
       [(0, False), (1, False)]
   \<and> map fst (calls (snd (listenKeyEvent keyup [passing, passing] playing plain_key []))) =
       [0 ..< length [passing, passing]]"
proof -
  have c: "calls (snd (listenKeyEvent keyup [passing, claiming, passing] playing plain_key [])) =
       [(0, False), (1, True)]"
    using shouldMapKey_playing_plain_key
    by (simp add: listenKeyEvent_def claiming_def passing_def fnMap_def)
  have p: "calls (snd (listenKeyEvent keyup [passing, passing] playing plain_key [])) =
       [(0, False), (1, False)]"
    using shouldMapKey_playing_plain_key
    by (simp add: listenKeyEvent_def claiming_def passing_def fnMap_def)
  have r: "ret (snd (listenKeyEvent keyup [passing, claiming, passing] playing plain_key []))"
    using shouldMapKey_playing_plain_key
    by (simp add: listenKeyEvent_def claiming_def passing_def fnMap_def)
  have q: "\<not> ret (snd (listenKeyEvent keyup [passing, passing] playing plain_key []))"
    using shouldMapKey_playing_plain_key
    by (simp add: listenKeyEvent_def claiming_def passing_def fnMap_def)
  from dispatch_until_first_claim [OF shouldMapKey_playing_plain_key,
      of keyup "[passing, claiming, passing]" "[]"]
    dispatch_until_first_claim [OF shouldMapKey_playing_plain_key,
      of keyup "[passing, passing]" "[]"]
    shouldMapKey_playing_plain_key c p r q
  show ?thesis by simp
qed

text \<open>
  Claim C3. For every event that passes the filter, the combined result is the logical OR
  of the values the called handlers returned; when it is true the listener stops the
  propagation of the event and prevents its default action, and when it is false the
  listener leaves the event as it was.
\<close>

theorem suppression_iff_some_handler_claims:
  assumes "shouldMapKey st ev"
  shows "ret (snd (listenKeyEvent type plugins st ev w)) =
           list_ex snd (calls (snd (listenKeyEvent type plugins st ev w)))
         \<and> (list_ex snd (calls (snd (listenKeyEvent type plugins st ev w))) \<longrightarrow>
               fst (listenKeyEvent type plugins st ev w) =
                 ev\<lparr>propagationStopped := True, defaultPrevented := True\<rparr>)
         \<and> (\<not> list_ex snd (calls (snd (listenKeyEvent type plugins st ev w))) \<longrightarrow>
               fst (listenKeyEvent type plugins st ev w) = ev)"
proof -
  from listenKeyEvent_calls [OF assms, of plugins type w] obtain rs where
    rs: "calls (snd (listenKeyEvent type plugins st ev w)) = zip [0 ..< length rs] rs"
      "ret (snd (listenKeyEvent type plugins st ev w)) = (rs \<noteq> [] \<and> last rs)"
      "\<forall>r \<in> set (butlast rs). \<not> r"
    by blast
  have "list_ex snd (zip [0 ..< length rs] rs) = (\<exists>r \<in> set (map snd (zip [0 ..< length rs] rs)). r)"
    unfolding list_ex_iff by (simp del: map_snd_zip)
  also have "\<dots> = (\<exists>r \<in> set rs. r)" by simp
  also have "\<dots> = (rs \<noteq> [] \<and> last rs)"
    using rs(3) by (cases rs rule: rev_cases) auto
  finally have e: "ret (snd (listenKeyEvent type plugins st ev w)) =
           list_ex snd (calls (snd (listenKeyEvent type plugins st ev w)))"
    by (simp add: rs(1) rs(2))
  have "fst (listenKeyEvent type plugins st ev w) =
          (if ret (snd (listenKeyEvent type plugins st ev w))
           then ev\<lparr>propagationStopped := True, defaultPrevented := True\<rparr> else ev)"
    using assms by (simp add: listenKeyEvent_def Let_def)
  with e show ?thesis by simp
qed

theorem suppression_iff_some_handler_claims_witness:
  "shouldMapKey playing plain_key
   \<and> fst (listenKeyEvent keydown [passing, claiming] playing plain_key []) =
       plain_key\<lparr>propagationStopped := True, defaultPrevented := True\<rparr>
   \<and> list_ex snd (calls (snd (listenKeyEvent keydown [passing, claiming] playing plain_key [])))
   \<and> fst (listenKeyEvent keydown [passing, passing] playing plain_key []) = plain_key
   \<and> \<not> list_ex snd (calls (snd (listenKeyEvent keydown [passing, passing] playing plain_key [])))"
proof -
  have c: "calls (snd (listenKeyEvent keydown [passing, claiming] playing plain_key [])) =
       [(0, False), (1, True)]"
    using shouldMapKey_playing_plain_key
    by (simp add: listenKeyEvent_def claiming_def passing_def fnMap_def)
  have p: "calls (snd (listenKeyEvent keydown [passing, passing] playing plain_key [])) =
       [(0, False), (1, False)]"
    using shouldMapKey_playing_plain_key
    by (simp add: listenKeyEvent_def claiming_def passing_def fnMap_def)
  from suppression_iff_some_handler_claims [OF shouldMapKey_playing_plain_key,
      of keydown "[passing, claiming]" "[]"]
    suppression_iff_some_handler_claims [OF shouldMapKey_playing_plain_key,
      of keydown "[passing, passing]" "[]"]
    shouldMapKey_playing_plain_key
  show ?thesis unfolding c p by simp
qed

text \<open>
  Claim C4. When the target of the event is an \<^verbatim>\<open>input\<close> or \<^verbatim>\<open>textarea\<close>
  element, or the meta, alt or control key is held, or there is no active video, the
  listener calls no handler and leaves the event and the world as they were.
\<close>

theorem filtered_event_reaches_no_plugin:
  assumes "(\<exists>tagName. target_tagName ev = Some tagName
              \<and> toLowerCase tagName \<in> {''input'', ''textarea''})
           \<or> metaKey ev \<or> altKey ev \<or> ctrlKey ev
           \<or> video st = None"
  shows "listenKeyEvent type plugins st ev w = (ev, \<lparr>ret = False, world = w, calls = []\<rparr>)"
proof -
  from assms have "\<not> shouldMapKey st ev"
    by (auto simp: shouldMapKey_def split: option.splits)
  then show ?thesis by (simp add: listenKeyEvent_def)
qed

theorem filtered_event_reaches_no_plugin_witness:
  "toLowerCase ''INPUT'' = ''input''
   \<and> listenKeyEvent keydown [claiming, passing] playing typing_key [] =
       (typing_key, \<lparr>ret = False, world = [], calls = []\<rparr>)
   \<and> ctrlKey ctrl_key
   \<and> listenKeyEvent keyup [claiming, passing] playing ctrl_key [] =
       (ctrl_key, \<lparr>ret = False, world = [], calls = []\<rparr>)
   \<and> video (initial :: string selection) = None
   \<and> listenKeyEvent keydown [claiming, passing] initial plain_key [] =
       (plain_key, \<lparr>ret = False, world = [], calls = []\<rparr>)"
proof -
  have l: "toLowerCase ''INPUT'' = ''input''"
    by (simp add: toLowerCase_def toLowerCase_char_def)
  have t: "(\<exists>tagName. target_tagName typing_key = Some tagName
              \<and> toLowerCase tagName \<in> {''input'', ''textarea''})
           \<or> metaKey typing_key \<or> altKey typing_key \<or> ctrlKey typing_key
           \<or> video playing = None"
    by (simp add: typing_key_def l)
  have c: "ctrlKey ctrl_key" by (simp add: ctrl_key_def)
  have v: "video (initial :: string selection) = None" by (simp add: initial_def video_def)
  from filtered_event_reaches_no_plugin [OF t, of keydown "[claiming, passing]" "[]"]
    filtered_event_reaches_no_plugin [of ctrl_key playing keyup "[claiming, passing]" "[]"]
    filtered_event_reaches_no_plugin [of plain_key initial keydown "[claiming, passing]" "[]"]
    l c v
  show ?thesis by simp
qed

subsection \<open>The outlines of the picker\<close>

lemma first_className_prepend:
  "parentElement pg v = Some p \<Longrightarrow> first_className (prepend p pg) v = Some outline_class"
  by (simp add: first_className_def prepend_def firstElementChild_def)

lemma selectVideo_twice:
  assumes "selectVideo videos index pg = Inr pg'"
  shows "selectVideo videos index pg' = Inr pg'"
proof -
  from assms have i: "index < length videos"
    by (auto simp: selectVideo_def split: if_splits)
  show ?thesis
  proof (cases "first_className pg (videos ! index) = Some outline_class")
    case True
    with assms i show ?thesis by (simp add: selectVideo_def)
  next
    case False
    show ?thesis
    proof (cases "parentElement pg (videos ! index)")
      case None
      with assms i False show ?thesis by (simp add: selectVideo_def)
    next
      case (Some p)
      with assms i False have "pg' = prepend p pg" by (simp add: selectVideo_def)
      with Some i show ?thesis
        by (simp add: selectVideo_def first_className_prepend)
    qed
  qed
qed

lemma remove_first_prepend: "remove_first p (prepend p pg) = pg"
  by (simp add: remove_first_def prepend_def)

text \<open>
  Claim C9. For an index of the list, \<^verbatim>\<open>selectVideo\<close> twice is
  \<^verbatim>\<open>selectVideo\<close> once; when the outline is there (the first element child of the
  parent of the video has the outline class) \<^verbatim>\<open>selectVideo\<close> changes nothing, and
  when it is not there \<^verbatim>\<open>unselectVideo\<close> changes nothing.
\<close>

theorem outline_bookkeeping_idempotent:
  assumes "index < length videos"
  shows "(\<exists>pg'. selectVideo videos index pg = Inr pg' \<and> selectVideo videos index pg' = Inr pg')
         \<and> (first_className pg (videos ! index) = Some outline_class \<longrightarrow>
               selectVideo videos index pg = Inr pg)
         \<and> (first_className pg (videos ! index) \<noteq> Some outline_class \<longrightarrow>
               unselectVideo videos index pg = Inr pg)"
proof -
  from assms obtain pg' where s: "selectVideo videos index pg = Inr pg'"
    by (cases "selectVideo videos index pg") (auto simp: selectVideo_def Let_def split: option.splits if_splits)
  from s selectVideo_twice [OF s] assms show ?thesis
    by (auto simp: selectVideo_def unselectVideo_def)
qed

theorem outline_bookkeeping_idempotent_witness:
  "0 < length [''v0'']
   \<and> first_className framed_page ([''v0''] ! 0) = Some ''title''
   \<and> selectVideo [''v0''] 0 framed_page = Inr (prepend 7 framed_page)
   \<and> selectVideo [''v0''] 0 (prepend 7 framed_page) = Inr (prepend 7 framed_page)
   \<and> unselectVideo [''v0''] 0 framed_page = Inr framed_page
   \<and> unselectVideo [''v0''] 0 (prepend 7 framed_page) = Inr framed_page"
proof -
  have f: "first_className framed_page ([''v0''] ! 0) = Some ''title''"
    by (simp add: first_className_def framed_page_def firstElementChild_def)
  then have n: "first_className framed_page ([''v0''] ! 0) \<noteq> Some outline_class"
    by (simp add: outline_class_def)
  have p: "parentElement framed_page ''v0'' = Some 7" by (simp add: framed_page_def)
  have s: "selectVideo [''v0''] 0 framed_page = Inr (prepend 7 framed_page)"
    using n p by (simp add: selectVideo_def)
  have pp: "parentElement (prepend 7 framed_page) ''v0'' = Some 7"
    using p by (simp add: prepend_def)
  have u: "unselectVideo [''v0''] 0 (prepend 7 framed_page) = Inr framed_page"
    by (simp add: unselectVideo_def first_className_prepend [OF p] pp remove_first_prepend)
  from outline_bookkeeping_idempotent [of 0 "[''v0'']" framed_page] f n s u
  show ?thesis by auto
qed

end
